theory Spec2Isabelle
  imports Main
begin

section \<open>Documents\<close>

text \<open>
  \<^verbatim>\<open>scripts/merge_openapi.py\<close> merges OpenAPI documents that \<^verbatim>\<open>yaml.safe_load\<close> has
  parsed into Python objects. A parsed document is a tree of mappings, sequences and
  scalars. A Python \<^verbatim>\<open>dict\<close> keeps its keys in insertion order, and the order is what
  \<^verbatim>\<open>yaml.safe_dump(..., sort_keys=False)\<close> writes, so a mapping is an association list:
  the keys in insertion order, each with its value. Keys are strings, as the keys of an
  OpenAPI document are. Floating-point and timestamp scalars are left out. Documents are
  trees: two keys never share one object (no YAML anchor is referenced twice).
\<close>

datatype yaml =
    YNull
  | YBool bool
  | YInt int
  | YStr string
  | YList "yaml list"
  | YDict "(string \<times> yaml) list"

type_synonym dict = "(string \<times> yaml) list"

text \<open>
  The exceptions the script can raise; none of them is caught anywhere. \<open>LoadError p\<close>
  is the exception raised inside \<^verbatim>\<open>load_yaml(p)\<close>: an \<^verbatim>\<open>OSError\<close> of \<^verbatim>\<open>open\<close>, a
  \<^verbatim>\<open>UnicodeDecodeError\<close> of the read, or a \<^verbatim>\<open>yaml.YAMLError\<close> of \<^verbatim>\<open>safe_load\<close>. The
  path \<open>p\<close> tells which call raised; what the message of the exception says is
  \<open>named_file\<close> below. \<open>WriteError p\<close> is the \<^verbatim>\<open>OSError\<close> of \<^verbatim>\<open>open(p, 'w')\<close>.
\<close>

datatype error =
    LoadError string
  | AttributeError
  | TypeError
  | KeyError string
  | WriteError string

text \<open>Python's truth value of an object, as \<^verbatim>\<open>x or y\<close> and \<^verbatim>\<open>if x\<close> test it.\<close>

fun truthy :: "yaml \<Rightarrow> bool" where
  "truthy YNull = False"
| "truthy (YBool b) = b"
| "truthy (YInt i) = (i \<noteq> 0)"
| "truthy (YStr s) = (s \<noteq> [])"
| "truthy (YList xs) = (xs \<noteq> [])"
| "truthy (YDict kvs) = (kvs \<noteq> [])"

text \<open>\<^verbatim>\<open>x or y\<close>\<close>

definition py_or :: "yaml \<Rightarrow> yaml \<Rightarrow> yaml" where
  "py_or x y = (if truthy x then x else y)"

fun is_dict :: "yaml \<Rightarrow> bool" where
  "is_dict (YDict kvs) = True"
| "is_dict v = False"

text \<open>
  \<^verbatim>\<open>d[k] = v\<close> on a dict: an existing key keeps its place and takes the new value, a new
  key goes to the end.
\<close>

fun setitem :: "string \<Rightarrow> yaml \<Rightarrow> dict \<Rightarrow> dict" where
  "setitem k v [] = [(k, v)]"
| "setitem k v ((k', v') # kvs) =
     (if k' = k then (k, v) # kvs else (k', v') # setitem k v kvs)"

text \<open>\<^verbatim>\<open>x.get(k, default)\<close>: only a dict has the method.\<close>

definition py_get :: "yaml \<Rightarrow> string \<Rightarrow> yaml \<Rightarrow> error + yaml" where
  "py_get x k dflt =
     (case x of
        YDict kvs \<Rightarrow> (case map_of kvs k of Some v \<Rightarrow> Inr v | None \<Rightarrow> Inr dflt)
      | _ \<Rightarrow> Inl AttributeError)"

text \<open>\<^verbatim>\<open>copy.deepcopy\<close> rebuilds the tree node by node.\<close>

fun deepcopy :: "yaml \<Rightarrow> yaml" where
  "deepcopy (YList xs) = YList (map deepcopy xs)"
| "deepcopy (YDict kvs) = YDict (map (\<lambda>(k, v). (k, deepcopy v)) kvs)"
| "deepcopy v = v"

section \<open>The deep merge\<close>

text \<open>
  \<^verbatim>\<open>
  def deep_merge_dict(dst, src):
      for k, v in (src or {}).items():
          if k in dst and isinstance(dst[k], dict) and isinstance(v, dict):
              deep_merge_dict(dst[k], v)
          else:
              dst[k] = deepcopy(v)
  \<close>
  The Python mutates \<open>dst\<close> in place; the model returns the new \<open>dst\<close>. A truthy
  \<open>src\<close> that is no dict has no \<^verbatim>\<open>items\<close> and raises. \<open>merge_items\<close> is the loop.
\<close>

function deep_merge_dict :: "dict \<Rightarrow> yaml \<Rightarrow> error + dict"
  and merge_items :: "dict \<Rightarrow> (string \<times> yaml) list \<Rightarrow> error + dict" where
  "deep_merge_dict dst src =
     (case py_or src (YDict []) of
        YDict items \<Rightarrow> merge_items dst items
      | _ \<Rightarrow> Inl AttributeError)"
| "merge_items dst [] = Inr dst"
| "merge_items dst ((k, v) # rest) =
     (case map_of dst k of
        Some (YDict d) \<Rightarrow>
          (if is_dict v then
             (case deep_merge_dict d v of
                Inl e \<Rightarrow> Inl e
              | Inr d' \<Rightarrow> merge_items (setitem k (YDict d') dst) rest)
           else merge_items (setitem k (deepcopy v) dst) rest)
      | _ \<Rightarrow> merge_items (setitem k (deepcopy v) dst) rest)"
  by pat_completeness auto
termination
  by (relation "measure (\<lambda>x. case x of
        Inl (dst, src) \<Rightarrow> size src + 1
      | Inr (dst, items) \<Rightarrow> size_list (size_prod (\<lambda>_. 0) size) items)")
     (auto simp: py_or_def split: if_splits)

section \<open>Merging the documents\<close>

text \<open>\<^verbatim>\<open>d[k]\<close> on a dict raises \<^verbatim>\<open>KeyError\<close> for a missing key.\<close>

definition getitem :: "dict \<Rightarrow> string \<Rightarrow> error + yaml" where
  "getitem d k = (case map_of d k of None \<Rightarrow> Inl (KeyError k) | Some v \<Rightarrow> Inr v)"

text \<open>
  \<^verbatim>\<open>d.setdefault(k, default)\<close>: the dict, with \<open>k\<close> added when it was missing, and the
  value now under \<open>k\<close>.
\<close>

definition setdefault :: "dict \<Rightarrow> string \<Rightarrow> yaml \<Rightarrow> dict \<times> yaml" where
  "setdefault d k dflt =
     (case map_of d k of Some v \<Rightarrow> (d, v) | None \<Rightarrow> (setitem k dflt d, dflt))"

text \<open>
  \<^verbatim>\<open>for t in x\<close>: a list gives its elements, a dict its keys, a string its characters;
  the other objects are not iterable.
\<close>

fun py_iter :: "yaml \<Rightarrow> error + yaml list" where
  "py_iter (YList xs) = Inr xs"
| "py_iter (YDict kvs) = Inr (map (\<lambda>kv. YStr (fst kv)) kvs)"
| "py_iter (YStr s) = Inr (map (\<lambda>c. YStr [c]) s)"
| "py_iter v = Inl TypeError"

text \<open>
  The members of the set \<^verbatim>\<open>seen_tags\<close>. Python compares the members of a set by
  \<^verbatim>\<open>==\<close> after hashing: \<^verbatim>\<open>True == 1\<close> and \<^verbatim>\<open>False == 0\<close>, a string equals only
  itself, and a list or a dict cannot be hashed.
\<close>

datatype hkey = HNone | HInt int | HStr string

fun py_hash :: "yaml \<Rightarrow> error + hkey" where
  "py_hash YNull = Inr HNone"
| "py_hash (YBool b) = Inr (HInt (if b then 1 else 0))"
| "py_hash (YInt i) = Inr (HInt i)"
| "py_hash (YStr s) = Inr (HStr s)"
| "py_hash (YList xs) = Inl TypeError"
| "py_hash (YDict kvs) = Inl TypeError"

text \<open>The state of the loop of \<^verbatim>\<open>merge_specs\<close>: the accumulator and the names seen.\<close>

record acc =
  out :: dict
  seen_tags :: "hkey set"

text \<open>\<^verbatim>\<open>out['tags'].append(t)\<close>\<close>

definition tags_append :: "dict \<Rightarrow> yaml \<Rightarrow> error + dict" where
  "tags_append d t =
     (case getitem d ''tags'' of
        Inl e \<Rightarrow> Inl e
      | Inr (YList xs) \<Rightarrow> Inr (setitem ''tags'' (YList (xs @ [t])) d)
      | Inr _ \<Rightarrow> Inl AttributeError)"

text \<open>
  \<^verbatim>\<open>
  for t in spec.get('tags', []) or []:
      name = t.get('name')
      if name and name not in seen_tags:
          out['tags'].append(t)
          seen_tags.add(name)
  \<close>
\<close>

fun merge_tags :: "yaml list \<Rightarrow> acc \<Rightarrow> error + acc" where
  "merge_tags [] st = Inr st"
| "merge_tags (t # ts) st =
     (case py_get t ''name'' YNull of
        Inl e \<Rightarrow> Inl e
      | Inr name \<Rightarrow>
          if truthy name then
            (case py_hash name of
               Inl e \<Rightarrow> Inl e
             | Inr h \<Rightarrow>
                 if h \<notin> seen_tags st then
                   (case tags_append (out st) t of
                      Inl e \<Rightarrow> Inl e
                    | Inr d \<Rightarrow> merge_tags ts \<lparr>out = d, seen_tags = insert h (seen_tags st)\<rparr>)
                 else merge_tags ts st)
          else merge_tags ts st)"

definition tags_step :: "yaml \<Rightarrow> acc \<Rightarrow> error + acc" where
  "tags_step spec st =
     (case py_get spec ''tags'' (YList []) of
        Inl e \<Rightarrow> Inl e
      | Inr tg \<Rightarrow>
          (case py_iter (py_or tg (YList [])) of
             Inl e \<Rightarrow> Inl e
           | Inr ts \<Rightarrow> merge_tags ts st))"

text \<open>
  \<^verbatim>\<open>deep_merge_dict(out['paths'], spec.get('paths', {}))\<close>. The merge is in place, so the
  merged dict is the value of \<^verbatim>\<open>out['paths']\<close> afterwards. \<^verbatim>\<open>out['paths']\<close> is a dict
  in every run (see \<open>shape_ok\<close> below); the branch for another object is never taken.
\<close>

definition paths_step :: "yaml \<Rightarrow> dict \<Rightarrow> error + dict" where
  "paths_step spec d =
     (case getitem d ''paths'' of
        Inl e \<Rightarrow> Inl e
      | Inr dstv \<Rightarrow>
          (case py_get spec ''paths'' (YDict []) of
             Inl e \<Rightarrow> Inl e
           | Inr src \<Rightarrow>
               (case dstv of
                  YDict dst \<Rightarrow>
                    (case deep_merge_dict dst src of
                       Inl e \<Rightarrow> Inl e
                     | Inr dst' \<Rightarrow> Inr (setitem ''paths'' (YDict dst') d))
                | _ \<Rightarrow> Inl TypeError)))"

text \<open>
  \<^verbatim>\<open>deep_merge_dict(out['components'].setdefault(key, {}), comps.get(key, {}) or {})\<close>
\<close>

definition component_step :: "yaml \<Rightarrow> string \<Rightarrow> dict \<Rightarrow> error + dict" where
  "component_step comps key d =
     (case getitem d ''components'' of
        Inl e \<Rightarrow> Inl e
      | Inr (YDict c) \<Rightarrow>
          (case setdefault c key (YDict []) of
             (c1, dstv) \<Rightarrow>
               (case py_get comps key (YDict []) of
                  Inl e \<Rightarrow> Inl e
                | Inr s \<Rightarrow>
                    (case dstv of
                       YDict dst \<Rightarrow>
                         (case deep_merge_dict dst (py_or s (YDict [])) of
                            Inl e \<Rightarrow> Inl e
                          | Inr dst' \<Rightarrow>
                              Inr (setitem ''components''
                                     (YDict (setitem key (YDict dst') c1)) d))
                     | _ \<Rightarrow> Inl TypeError)))
      | Inr _ \<Rightarrow> Inl AttributeError)"

fun components_loop :: "yaml \<Rightarrow> string list \<Rightarrow> dict \<Rightarrow> error + dict" where
  "components_loop comps [] d = Inr d"
| "components_loop comps (key # keys) d =
     (case component_step comps key d of
        Inl e \<Rightarrow> Inl e
      | Inr d' \<Rightarrow> components_loop comps keys d')"

definition component_keys :: "string list" where
  "component_keys = [''schemas'', ''securitySchemes'', ''parameters'', ''responses'']"

text \<open>
  \<^verbatim>\<open>
  comps = spec.get('components', {}) or {}
  for key in ['schemas', 'securitySchemes', 'parameters', 'responses']:
      deep_merge_dict(...)
  \<close>
\<close>

definition components_step :: "yaml \<Rightarrow> dict \<Rightarrow> error + dict" where
  "components_step spec d =
     (case py_get spec ''components'' (YDict []) of
        Inl e \<Rightarrow> Inl e
      | Inr c \<Rightarrow> components_loop (py_or c (YDict [])) component_keys d)"

text \<open>The body of the loop over the input files, after the file is loaded.\<close>

definition merge_spec :: "yaml \<Rightarrow> acc \<Rightarrow> error + acc" where
  "merge_spec spec st =
     (case paths_step spec (out st) of
        Inl e \<Rightarrow> Inl e
      | Inr d1 \<Rightarrow>
          (case components_step spec d1 of
             Inl e \<Rightarrow> Inl e
           | Inr d2 \<Rightarrow> tags_step spec (st\<lparr>out := d2\<rparr>)))"

text \<open>
  The files: a path has the document that \<^verbatim>\<open>yaml.safe_load\<close> parses from it, or none
  when the file is missing, unreadable or not valid YAML, and then \<^verbatim>\<open>load_yaml\<close>
  raises. The document of a path need not be a mapping: an empty file is parsed to
  \<^verbatim>\<open>None\<close>, a file with a list to a list.
\<close>

type_synonym files = "string \<rightharpoonup> yaml"

definition load_yaml :: "files \<Rightarrow> string \<Rightarrow> error + yaml" where
  "load_yaml fs path = (case fs path of None \<Rightarrow> Inl (LoadError path) | Some v \<Rightarrow> Inr v)"

text \<open>
  Why \<^verbatim>\<open>load_yaml\<close> raises on a path that has no document, and whether the message of
  the exception has the path. The message of an \<^verbatim>\<open>OSError\<close> ends with the file name, and
  the marks of a \<^verbatim>\<open>yaml.YAMLError\<close> have the name of the stream, which is the path. The
  message of a \<^verbatim>\<open>UnicodeDecodeError\<close> has the codec, the byte and its position, and no
  file name.
\<close>

datatype load_failure = FileNotFound | PermissionDenied | NotUtf8 | NotYaml

fun message_has_path :: "load_failure \<Rightarrow> bool" where
  "message_has_path FileNotFound = True"
| "message_has_path PermissionDenied = True"
| "message_has_path NotUtf8 = False"
| "message_has_path NotYaml = True"

text \<open>
  The file that the traceback of an uncaught exception names, if any. An
  \<^verbatim>\<open>AttributeError\<close> says which type has no \<^verbatim>\<open>get\<close> (or \<^verbatim>\<open>items\<close>), a
  \<^verbatim>\<open>TypeError\<close> which type is not iterable or hashable, a \<^verbatim>\<open>KeyError\<close> which key
  is missing: none of them names a file.
\<close>

fun named_file :: "(string \<Rightarrow> load_failure) \<Rightarrow> error \<Rightarrow> string option" where
  "named_file why (LoadError p) = (if message_has_path (why p) then Some p else None)"
| "named_file why (WriteError p) = Some p"
| "named_file why AttributeError = None"
| "named_file why TypeError = None"
| "named_file why (KeyError k) = None"

fun merge_loop :: "files \<Rightarrow> string list \<Rightarrow> acc \<Rightarrow> error + acc" where
  "merge_loop fs [] st = Inr st"
| "merge_loop fs (p # ps) st =
     (case load_yaml fs p of
        Inl e \<Rightarrow> Inl e
      | Inr spec \<Rightarrow>
          (case merge_spec spec st of
             Inl e \<Rightarrow> Inl e
           | Inr st' \<Rightarrow> merge_loop fs ps st'))"

text \<open>
  \<^verbatim>\<open>str.strip()\<close> removes the white space at both ends. A character is a code point
  below 256; these are the ones for which \<^verbatim>\<open>str.isspace\<close> holds.
\<close>

definition isspace :: "char \<Rightarrow> bool" where
  "isspace c = ((of_char c :: nat) \<in> {9, 10, 11, 12, 13, 28, 29, 30, 31, 32, 133, 160})"

definition strip :: "string \<Rightarrow> string" where
  "strip s = rev (dropWhile isspace (rev (dropWhile isspace s)))"

type_synonym environ = "string \<rightharpoonup> string"

definition initial_out :: dict where
  "initial_out =
     [(''openapi'', YStr ''3.0.3''),
      (''info'', YDict [(''title'', YStr ''FocusNest - All Services''),
                        (''version'', YStr ''1.0.0'')]),
      (''paths'', YDict []),
      (''components'', YDict [(''schemas'', YDict []), (''securitySchemes'', YDict []),
                              (''parameters'', YDict []), (''responses'', YDict [])]),
      (''tags'', YList [])]"

text \<open>\<^verbatim>\<open>os.environ.get('MERGE_DEFAULT_SERVER', '').strip()\<close>\<close>

definition default_server :: "environ \<Rightarrow> string" where
  "default_server env =
     strip (case env ''MERGE_DEFAULT_SERVER'' of None \<Rightarrow> [] | Some s \<Rightarrow> s)"

text \<open>The accumulator before the loop: the literal, and the server override.\<close>

definition start_out :: "environ \<Rightarrow> dict" where
  "start_out env =
     (if default_server env \<noteq> [] then
        setitem ''servers''
          (YList [YDict [(''url'', YStr (default_server env)),
                         (''description'', YStr ''Default'')]])
          initial_out
      else initial_out)"

definition merge_specs :: "environ \<Rightarrow> files \<Rightarrow> string list \<Rightarrow> error + dict" where
  "merge_specs env fs paths =
     (case merge_loop fs paths \<lparr>out = start_out env, seen_tags = {}\<rparr> of
        Inl e \<Rightarrow> Inl e
      | Inr st \<Rightarrow> Inr (out st))"

section \<open>The command line\<close>

text \<open>
  What a run can change: the files and the lines printed. \<open>writable\<close> tells whether
  \<^verbatim>\<open>open(path, 'w')\<close> succeeds. The output file is read back as the document that was
  dumped: \<^verbatim>\<open>safe_dump\<close> with \<^verbatim>\<open>sort_keys=False\<close> writes the keys of each dict in
  their order.
\<close>

record world =
  files :: files
  writable :: "string \<Rightarrow> bool"
  stdout :: "string list"

text \<open>How the process ends: normally, by \<^verbatim>\<open>sys.exit(n)\<close>, or by an uncaught exception.\<close>

datatype outcome = Finished | SystemExit nat | Uncaught error

fun exit_status :: "outcome \<Rightarrow> nat" where
  "exit_status Finished = 0"
| "exit_status (SystemExit n) = n"
| "exit_status (Uncaught e) = 1"

definition digit_char :: "nat \<Rightarrow> char" where
  "digit_char d = char_of (48 + d)"

fun show_nat :: "nat \<Rightarrow> string" where
  "show_nat n = (if n < 10 then [digit_char n] else show_nat (n div 10) @ [digit_char (n mod 10)])"

definition usage :: string where
  "usage = ''Usage: merge_openapi.py <output> <input1> [input2 ...]''"

text \<open>
  \<^verbatim>\<open>
  def main():
      if len(sys.argv) < 3:
          print('Usage: merge_openapi.py <output> <input1> [input2 ...]')
          sys.exit(1)
      output = sys.argv[1]
      inputs = sys.argv[2:]
      merged = merge_specs(inputs)
      with open(output, 'w', encoding='utf-8') as f:
          yaml.safe_dump(merged, f, sort_keys=False)
      print(f'Wrote {output} from {len(inputs)} inputs')
  \<close>
  \<open>argv\<close> is \<^verbatim>\<open>sys.argv\<close>: the name of the script, then the arguments.
\<close>

definition main :: "environ \<Rightarrow> string list \<Rightarrow> world \<Rightarrow> outcome \<times> world" where
  "main env argv w =
     (if length argv < 3 then (SystemExit 1, w\<lparr>stdout := stdout w @ [usage]\<rparr>)
      else
        let output = argv ! 1; inputs = drop 2 argv in
        (case merge_specs env (files w) inputs of
           Inl e \<Rightarrow> (Uncaught e, w)
         | Inr merged \<Rightarrow>
             if writable w output then
               (Finished,
                w\<lparr>files := (files w)(output \<mapsto> YDict merged),
                  stdout := stdout w @
                    [''Wrote '' @ output @ '' from '' @ show_nat (length inputs) @ '' inputs'']\<rparr>)
             else (Uncaught (WriteError output), w)))"

section \<open>Notions the properties are stated with\<close>


text \<open>The value at a path of keys, going down through mappings.\<close>

fun get_path :: "yaml \<Rightarrow> string list \<Rightarrow> yaml option" where
  "get_path v [] = Some v"
| "get_path (YDict kvs) (k # ks) =
     (case map_of kvs k of None \<Rightarrow> None | Some v \<Rightarrow> get_path v ks)"
| "get_path v (k # ks) = None"


text \<open>The Python type of an object, and the keys of a dict with the types of their values.\<close>

datatype kind = KNull | KBool | KInt | KStr | KList | KDict

fun kind_of :: "yaml \<Rightarrow> kind" where
  "kind_of YNull = KNull"
| "kind_of (YBool b) = KBool"
| "kind_of (YInt i) = KInt"
| "kind_of (YStr s) = KStr"
| "kind_of (YList xs) = KList"
| "kind_of (YDict kvs) = KDict"

definition shape :: "dict \<Rightarrow> (string \<times> kind) list" where
  "shape d = map (\<lambda>kv. (fst kv, kind_of (snd kv))) d"

definition comp_shape :: "dict \<Rightarrow> (string \<times> kind) list option" where
  "comp_shape d =
     (case map_of d ''components'' of Some (YDict c) \<Rightarrow> Some (shape c) | _ \<Rightarrow> None)"

definition top_kinds :: "(string \<times> kind) list" where
  "top_kinds =
     [(''openapi'', KStr), (''info'', KDict), (''paths'', KDict), (''components'', KDict),
      (''tags'', KList)]"

definition component_kinds :: "(string \<times> kind) list" where
  "component_kinds =
     [(''schemas'', KDict), (''securitySchemes'', KDict), (''parameters'', KDict),
      (''responses'', KDict)]"

text \<open>
  The shape of the accumulator: the five keys of the literal in \<^verbatim>\<open>merge_specs\<close> in
  their order, \<^verbatim>\<open>servers\<close> after them when the override is set, and the four
  sub-containers of \<^verbatim>\<open>components\<close>.
\<close>

definition shape_ok :: "dict \<Rightarrow> bool" where
  "shape_ok d =
     ((shape d = top_kinds \<or> shape d = top_kinds @ [(''servers'', KList)]) \<and>
      comp_shape d = Some component_kinds)"

text \<open>A document without its top-level \<^verbatim>\<open>servers\<close> entry.\<close>

fun without_servers :: "yaml \<Rightarrow> yaml" where
  "without_servers (YDict kvs) = YDict (filter (\<lambda>kv. fst kv \<noteq> ''servers'') kvs)"
| "without_servers v = v"

text \<open>
  The tag entries of a document, the name of a tag entry, and the tag entries of the
  input files in the order of the command line.
\<close>

fun doc_tags :: "yaml \<Rightarrow> yaml list" where
  "doc_tags (YDict kvs) = (case map_of kvs ''tags'' of Some (YList ts) \<Rightarrow> ts | _ \<Rightarrow> [])"
| "doc_tags v = []"

fun tag_name :: "yaml \<Rightarrow> yaml" where
  "tag_name (YDict kvs) = (case map_of kvs ''name'' of Some v \<Rightarrow> v | None \<Rightarrow> YNull)"
| "tag_name v = YNull"

definition all_tags :: "files \<Rightarrow> string list \<Rightarrow> yaml list" where
  "all_tags fs ps = concat (map (\<lambda>p. case fs p of None \<Rightarrow> [] | Some d \<Rightarrow> doc_tags d) ps)"

text \<open>
  The entries of a sequence of tag entries that have a truthy name which no earlier entry
  of the sequence has, in their order. Names are the same when they are equal as members
  of a Python set.
\<close>

definition first_named :: "yaml list \<Rightarrow> yaml list" where
  "first_named ts =
     map (\<lambda>i. ts ! i)
       (filter
          (\<lambda>i. truthy (tag_name (ts ! i)) \<and>
               py_hash (tag_name (ts ! i)) \<notin>
                 set (map (\<lambda>t. py_hash (tag_name t)) (take i ts)))
          [0..<length ts])"

text \<open>The same, for every name: what the entries would be if no name were skipped.\<close>

definition first_of_each_name :: "yaml list \<Rightarrow> yaml list" where
  "first_of_each_name ts =
     map (\<lambda>i. ts ! i)
       (filter
          (\<lambda>i. tag_name (ts ! i) \<notin> set (map tag_name (take i ts)))
          [0..<length ts])"

text \<open>The names of a sequence of tag entries that are truthy, as members of \<^verbatim>\<open>seen_tags\<close>.\<close>

definition seen_of :: "yaml list \<Rightarrow> hkey set" where
  "seen_of ts = {h. \<exists>t\<in>set ts. truthy (tag_name t) \<and> py_hash (tag_name t) = Inr h}"



text \<open>
  An input path that the loop cannot take in: \<^verbatim>\<open>load_yaml\<close> raises on it, or its
  document is not a mapping.
\<close>

definition cannot_merge :: "files \<Rightarrow> string \<Rightarrow> bool" where
  "cannot_merge fs p = (case fs p of None \<Rightarrow> True | Some d \<Rightarrow> \<not> is_dict d)"

text \<open>A key that a mapping does not have, or has with the value \<^verbatim>\<open>null\<close>.\<close>

definition absent_or_null :: "dict \<Rightarrow> string \<Rightarrow> bool" where
  "absent_or_null kvs k = (map_of kvs k = None \<or> map_of kvs k = Some YNull)"

text \<open>
  What a step on the key \<open>k\<close> leaves alone: the keys, the types of their values, and
  the values under the other keys.
\<close>

definition same_frame :: "string \<Rightarrow> dict \<Rightarrow> dict \<Rightarrow> bool" where
  "same_frame k d d' = (shape d' = shape d \<and> (\<forall>k'. k' \<noteq> k \<longrightarrow> map_of d' k' = map_of d k'))"

section \<open>Facts about the dict operations\<close>

declare deep_merge_dict.simps [simp del]

declare show_nat.simps [simp del]

lemma map_of_setitem:
  "map_of (setitem k v d) k' = (if k' = k then Some v else map_of d k')"
  by (induction d) auto

lemma keys_setitem:
  "map fst (setitem k v d) = (if k \<in> fst ` set d then map fst d else map fst d @ [k])"
  by (induction d) (auto simp: rev_image_eqI)


section \<open>The merge rule\<close>





section \<open>The shape of the accumulator\<close>

lemma shape_setitem:
  "map_of d k = Some v0 \<Longrightarrow> kind_of v0 = kind_of v \<Longrightarrow> shape (setitem k v d) = shape d"
  by (induction d) (auto simp: shape_def split: if_splits)

lemma setitem_same: "map_of d k = Some v \<Longrightarrow> setitem k v d = d"
  by (induction d) (auto split: if_splits)

lemma comp_shape_setitem:
  "k \<noteq> ''components'' \<Longrightarrow> comp_shape (setitem k v d) = comp_shape d"
  by (simp add: comp_shape_def map_of_setitem)

lemma paths_step_Inr:
  assumes "paths_step spec d = Inr d'"
  shows "\<exists>dst src r. map_of d ''paths'' = Some (YDict dst) \<and>
           py_get spec ''paths'' (YDict []) = Inr src \<and>
           deep_merge_dict dst src = Inr r \<and> d' = setitem ''paths'' (YDict r) d"
  using assms unfolding paths_step_def getitem_def
  by (auto split: option.splits sum.splits yaml.splits)

lemma component_step_Inr:
  assumes "component_step comps key d = Inr d'"
  shows "\<exists>c c1 dst s r. map_of d ''components'' = Some (YDict c) \<and>
           setdefault c key (YDict []) = (c1, YDict dst) \<and>
           py_get comps key (YDict []) = Inr s \<and>
           deep_merge_dict dst (py_or s (YDict [])) = Inr r \<and>
           d' = setitem ''components'' (YDict (setitem key (YDict r) c1)) d"
  using assms unfolding component_step_def getitem_def
  by (auto split: option.splits sum.splits yaml.splits prod.splits)

lemma tags_append_Inr:
  assumes "tags_append d t = Inr d'"
  shows "\<exists>xs. map_of d ''tags'' = Some (YList xs) \<and> d' = setitem ''tags'' (YList (xs @ [t])) d"
  using assms unfolding tags_append_def getitem_def
  by (auto split: option.splits sum.splits yaml.splits)

lemma paths_step_frame:
  "paths_step spec d = Inr d' \<Longrightarrow> same_frame ''paths'' d d'"
  by (auto dest!: paths_step_Inr simp: same_frame_def shape_setitem map_of_setitem)

lemma map_of_shape: "map_of (shape d) k = map_option kind_of (map_of d k)"
  by (induction d) (auto simp: shape_def)

lemma component_step_frame:
  assumes "component_step comps key d = Inr d'" and "comp_shape d = Some component_kinds"
    and "key \<in> set component_keys"
  shows "same_frame ''components'' d d' \<and> comp_shape d' = Some component_kinds"
proof -
  from component_step_Inr[OF assms(1)] obtain c c1 dst r where
    c: "map_of d ''components'' = Some (YDict c)"
    and sd: "setdefault c key (YDict []) = (c1, YDict dst)"
    and d': "d' = setitem ''components'' (YDict (setitem key (YDict r) c1)) d"
    by blast
  from assms(2) c have sc: "shape c = component_kinds" by (simp add: comp_shape_def)
  have "map_of (shape c) key = Some KDict"
    using assms(3) unfolding sc by (auto simp: component_kinds_def component_keys_def)
  then obtain v where v: "map_of c key = Some v" by (auto simp: map_of_shape)
  with sd have c1: "c1 = c" and vd: "v = YDict dst" by (auto simp: setdefault_def)
  have "shape (setitem key (YDict r) c) = shape c"
    using v vd by (simp add: shape_setitem)
  then show ?thesis
    using c d' c1 sc by (auto simp: same_frame_def shape_setitem map_of_setitem comp_shape_def)
qed

lemma same_frame_comp:
  "same_frame k d d' \<Longrightarrow> k \<noteq> ''components'' \<Longrightarrow> comp_shape d' = comp_shape d"
  by (simp add: same_frame_def comp_shape_def)

lemma same_frame_shape_ok:
  "same_frame k d d' \<Longrightarrow> comp_shape d' = comp_shape d \<Longrightarrow> shape_ok d \<Longrightarrow> shape_ok d'"
  by (simp add: same_frame_def shape_ok_def)

lemma components_loop_frame:
  assumes "components_loop comps keys d = Inr d'" and "comp_shape d = Some component_kinds"
    and "set keys \<subseteq> set component_keys"
  shows "same_frame ''components'' d d' \<and> comp_shape d' = Some component_kinds"
  using assms
proof (induction keys arbitrary: d)
  case Nil
  then show ?case by (simp add: same_frame_def)
next
  case (Cons key keys)
  from Cons.prems(1) obtain d1 where s1: "component_step comps key d = Inr d1"
    and l: "components_loop comps keys d1 = Inr d'"
    by (auto split: sum.splits)
  from component_step_frame[OF s1 Cons.prems(2)] Cons.prems(3)
  have f1: "same_frame ''components'' d d1" and c1: "comp_shape d1 = Some component_kinds"
    by auto
  from Cons.IH[OF l c1] Cons.prems(3)
  have "same_frame ''components'' d1 d'" and "comp_shape d' = Some component_kinds" by auto
  with f1 show ?case by (auto simp: same_frame_def)
qed

lemma components_step_frame:
  assumes "components_step spec d = Inr d'" and "comp_shape d = Some component_kinds"
  shows "same_frame ''components'' d d' \<and> comp_shape d' = Some component_kinds"
  using assms components_loop_frame[of _ component_keys d d']
  by (auto simp: components_step_def split: sum.splits)

lemma merge_tags_frame:
  "merge_tags ts st = Inr st' \<Longrightarrow> same_frame ''tags'' (out st) (out st')"
proof (induction ts arbitrary: st)
  case Nil
  then show ?case by (simp add: same_frame_def)
next
  case (Cons t ts)
  show ?case
  proof (cases "\<exists>name h d. py_get t ''name'' YNull = Inr name \<and> truthy name \<and>
      py_hash name = Inr h \<and> h \<notin> seen_tags st \<and> tags_append (out st) t = Inr d")
    case True
    then obtain name h d where n: "py_get t ''name'' YNull = Inr name" "truthy name"
      "py_hash name = Inr h" "h \<notin> seen_tags st" and d: "tags_append (out st) t = Inr d"
      by blast
    with Cons.prems have "merge_tags ts \<lparr>out = d, seen_tags = insert h (seen_tags st)\<rparr> = Inr st'"
      by simp
    from Cons.IH[OF this] have "same_frame ''tags'' d (out st')" by simp
    moreover from tags_append_Inr[OF d] have "same_frame ''tags'' (out st) d"
      by (auto simp: same_frame_def shape_setitem map_of_setitem)
    ultimately show ?thesis by (auto simp: same_frame_def)
  next
    case False
    with Cons.prems have "merge_tags ts st = Inr st'"
      by (auto split: sum.splits if_splits)
    from Cons.IH[OF this] show ?thesis .
  qed
qed

lemma tags_step_frame:
  "tags_step spec st = Inr st' \<Longrightarrow> same_frame ''tags'' (out st) (out st')"
  by (auto simp: tags_step_def split: sum.splits dest: merge_tags_frame)


lemma merge_spec_frame:
  assumes "merge_spec spec st = Inr st'" and "shape_ok (out st)"
  shows "shape (out st') = shape (out st) \<and> comp_shape (out st') = comp_shape (out st) \<and>
         shape_ok (out st') \<and>
         (\<forall>k. k \<notin> {''paths'', ''components'', ''tags''} \<longrightarrow>
              map_of (out st') k = map_of (out st) k)"
proof -
  from assms(1) obtain d1 d2 where p: "paths_step spec (out st) = Inr d1"
    and c: "components_step spec d1 = Inr d2"
    and t: "tags_step spec (st\<lparr>out := d2\<rparr>) = Inr st'"
    by (auto simp: merge_spec_def split: sum.splits)
  from assms(2) have cs: "comp_shape (out st) = Some component_kinds"
    by (simp add: shape_ok_def)
  have f1: "same_frame ''paths'' (out st) d1" by (rule paths_step_frame[OF p])
  then have c1: "comp_shape d1 = Some component_kinds"
    using cs same_frame_comp[OF f1] by simp
  from components_step_frame[OF c c1]
  have f2: "same_frame ''components'' d1 d2" and c2: "comp_shape d2 = Some component_kinds"
    by auto
  from tags_step_frame[OF t] have f3: "same_frame ''tags'' d2 (out st')" by simp
  then have c3: "comp_shape (out st') = Some component_kinds"
    using c2 same_frame_comp[OF f3] by simp
  have sh: "shape (out st') = shape (out st)"
    using f1 f2 f3 by (simp add: same_frame_def)
  have fr: "map_of (out st') k = map_of (out st) k"
    if "k \<notin> {''paths'', ''components'', ''tags''}" for k
    using f1 f2 f3 that by (simp add: same_frame_def)
  show ?thesis using sh cs c3 fr assms(2) by (simp add: shape_ok_def)
qed

lemma merge_loop_frame:
  assumes "merge_loop fs ps st = Inr st'" and "shape_ok (out st)"
  shows "shape (out st') = shape (out st) \<and> comp_shape (out st') = comp_shape (out st) \<and>
         shape_ok (out st') \<and>
         (\<forall>k. k \<notin> {''paths'', ''components'', ''tags''} \<longrightarrow>
              map_of (out st') k = map_of (out st) k)"
  using assms
proof (induction ps arbitrary: st)
  case Nil
  then show ?case by simp
next
  case (Cons p ps)
  from Cons.prems(1) obtain spec st1 where m: "merge_spec spec st = Inr st1"
    and l: "merge_loop fs ps st1 = Inr st'"
    by (auto split: sum.splits)
  from merge_spec_frame[OF m Cons.prems(2)] Cons.IH[OF l]
  show ?case by simp
qed

lemma shape_start_out:
  "shape (start_out env) =
     top_kinds @ (if default_server env \<noteq> [] then [(''servers'', KList)] else [])"
  "comp_shape (start_out env) = Some component_kinds"
  by (simp_all add: start_out_def initial_out_def shape_def comp_shape_def top_kinds_def
      component_kinds_def)

lemma shape_ok_start_out: "shape_ok (start_out env)"
  by (simp add: shape_ok_def shape_start_out)

text \<open>
  C9. The shape of the accumulator is fixed before the first input is read: the keys
  \<^verbatim>\<open>openapi\<close> (a string), \<^verbatim>\<open>info\<close>, \<^verbatim>\<open>paths\<close>, \<^verbatim>\<open>components\<close> (mappings) and
  \<^verbatim>\<open>tags\<close> (a sequence), then \<^verbatim>\<open>servers\<close> when the override is set, and under
  \<^verbatim>\<open>components\<close> the four sub-containers, all mappings. Merging one input into an
  accumulator of this shape adds no key, removes none and changes the type of none, at the
  top level and under \<^verbatim>\<open>components\<close>, and leaves the values under the keys other than
  \<^verbatim>\<open>paths\<close>, \<^verbatim>\<open>components\<close> and \<^verbatim>\<open>tags\<close> as they were. So the result of
  \<^verbatim>\<open>merge_specs\<close> has the shape of the start.
\<close>

theorem accumulator_shape_invariant:
  "shape_ok (start_out env) \<and>
   shape (start_out env) =
     top_kinds @ (if default_server env \<noteq> [] then [(''servers'', KList)] else []) \<and>
   (\<forall>spec st st'. shape_ok (out st) \<and> merge_spec spec st = Inr st' \<longrightarrow>
      shape (out st') = shape (out st) \<and> comp_shape (out st') = comp_shape (out st) \<and>
      shape_ok (out st') \<and>
      (\<forall>k. k \<notin> {''paths'', ''components'', ''tags''} \<longrightarrow>
           map_of (out st') k = map_of (out st) k)) \<and>
   (\<forall>fs ps r. merge_specs env fs ps = Inr r \<longrightarrow>
      shape r = shape (start_out env) \<and> comp_shape r = Some component_kinds \<and>
      (\<forall>k. k \<notin> {''paths'', ''components'', ''tags''} \<longrightarrow>
           map_of r k = map_of (start_out env) k))"
proof -
  have a: "shape (out st') = shape (out st) \<and> comp_shape (out st') = comp_shape (out st) \<and>
      shape_ok (out st') \<and>
      (\<forall>k. k \<notin> {''paths'', ''components'', ''tags''} \<longrightarrow>
           map_of (out st') k = map_of (out st) k)"
    if "shape_ok (out st) \<and> merge_spec spec st = Inr st'" for spec st st'
    using merge_spec_frame[of spec st st'] that by blast
  have b: "shape r = shape (start_out env) \<and> comp_shape r = Some component_kinds \<and>
      (\<forall>k. k \<notin> {''paths'', ''components'', ''tags''} \<longrightarrow>
           map_of r k = map_of (start_out env) k)"
    if "merge_specs env fs ps = Inr r" for fs ps r
  proof -
    from that obtain st where l: "merge_loop fs ps \<lparr>out = start_out env, seen_tags = {}\<rparr> = Inr st"
      and r: "r = out st"
      by (auto simp: merge_specs_def split: sum.splits)
    from merge_loop_frame[OF l] shape_ok_start_out shape_start_out(2) r
    show ?thesis by simp
  qed
  show ?thesis using shape_ok_start_out shape_start_out(1) a b by blast
qed

theorem accumulator_shape_invariant_witness:
  "\<exists>r. merge_specs [''MERGE_DEFAULT_SERVER'' \<mapsto> ''http://h'']
         [''a.yaml'' \<mapsto> YDict [(''paths'', YDict [(''/x'', YDict [(''get'', YInt 1)])]),
                                (''components'', YDict [(''schemas'', YDict [(''U'', YInt 2)])]),
                                (''tags'', YList [YDict [(''name'', YStr ''t'')]]),
                                (''servers'', YList [YStr ''s''])]]
         [''a.yaml''] = Inr r \<and>
       shape r = top_kinds @ [(''servers'', KList)] \<and>
       comp_shape r = Some component_kinds \<and>
       map_of r ''openapi'' = Some (YStr ''3.0.3'')"
proof -
  define env :: environ where "env = [''MERGE_DEFAULT_SERVER'' \<mapsto> ''http://h'']"
  define fs :: files where
    "fs = [''a.yaml'' \<mapsto> YDict [(''paths'', YDict [(''/x'', YDict [(''get'', YInt 1)])]),
                                (''components'', YDict [(''schemas'', YDict [(''U'', YInt 2)])]),
                                (''tags'', YList [YDict [(''name'', YStr ''t'')]]),
                                (''servers'', YList [YStr ''s''])]]"
  have "merge_specs env fs [''a.yaml''] =
      Inr [(''openapi'', YStr ''3.0.3''),
           (''info'', YDict [(''title'', YStr ''FocusNest - All Services''),
                             (''version'', YStr ''1.0.0'')]),
           (''paths'', YDict [(''/x'', YDict [(''get'', YInt 1)])]),
           (''components'', YDict [(''schemas'', YDict [(''U'', YInt 2)]),
                                   (''securitySchemes'', YDict []),
                                   (''parameters'', YDict []), (''responses'', YDict [])]),
           (''tags'', YList [YDict [(''name'', YStr ''t'')]]),
           (''servers'', YList [YDict [(''url'', YStr ''http://h''),
                                       (''description'', YStr ''Default'')]])]"
    unfolding env_def fs_def by code_simp
  then obtain r where r: "merge_specs env fs [''a.yaml''] = Inr r" by blast
  have ds: "default_server env \<noteq> []" unfolding env_def by code_simp
  have so: "map_of (start_out env) ''openapi'' = Some (YStr ''3.0.3'')"
    unfolding env_def by code_simp
  note inv = accumulator_shape_invariant [of env]
  have sh: "shape (start_out env) = top_kinds @ [(''servers'', KList)]"
    using inv [THEN conjunct2, THEN conjunct1] ds by simp
  have m: "shape r = shape (start_out env) \<and> comp_shape r = Some component_kinds \<and>
      (\<forall>k. k \<notin> {''paths'', ''components'', ''tags''} \<longrightarrow>
           map_of r k = map_of (start_out env) k)"
    using inv [THEN conjunct2, THEN conjunct2, THEN conjunct2, rule_format, OF r] .
  from m have "map_of r ''openapi'' = map_of (start_out env) ''openapi''" by simp
  with m sh so r show ?thesis unfolding env_def fs_def by auto
qed

section \<open>The command line: too few arguments\<close>

text \<open>
  C5. With fewer than two arguments after the name of the script, \<^verbatim>\<open>main\<close> prints the
  usage line to standard output and exits with status 1, and the files are as they were.
  With two or more it goes on to \<^verbatim>\<open>merge_specs\<close> on the arguments after the output
  path, and ends normally or by an uncaught exception, never by the usage exit.
\<close>

theorem main_usage:
  "(length argv < 3 \<longrightarrow>
      main env argv w = (SystemExit 1, w\<lparr>stdout := stdout w @ [usage]\<rparr>) \<and>
      exit_status (fst (main env argv w)) = 1 \<and>
      files (snd (main env argv w)) = files w) \<and>
   (3 \<le> length argv \<longrightarrow>
      main env argv w =
        (case merge_specs env (files w) (drop 2 argv) of
           Inl e \<Rightarrow> (Uncaught e, w)
         | Inr merged \<Rightarrow>
             if writable w (argv ! 1) then
               (Finished,
                w\<lparr>files := (files w)(argv ! 1 \<mapsto> YDict merged),
                  stdout := stdout w @
                    [''Wrote '' @ argv ! 1 @ '' from '' @ show_nat (length argv - 2) @
                     '' inputs'']\<rparr>)
             else (Uncaught (WriteError (argv ! 1)), w)) \<and>
      (\<forall>n. fst (main env argv w) \<noteq> SystemExit n))"
  by (auto simp: main_def Let_def split: sum.splits)

theorem main_usage_witness:
  "exit_status (fst (main Map.empty [''merge_openapi.py'', ''out.yaml'']
       \<lparr>files = Map.empty, writable = (\<lambda>p. True), stdout = []\<rparr>)) = 1 \<and>
   stdout (snd (main Map.empty [''merge_openapi.py'', ''out.yaml'']
       \<lparr>files = Map.empty, writable = (\<lambda>p. True), stdout = []\<rparr>)) = [usage] \<and>
   files (snd (main Map.empty [''merge_openapi.py'', ''out.yaml'']
       \<lparr>files = Map.empty, writable = (\<lambda>p. True), stdout = []\<rparr>)) ''out.yaml'' = None \<and>
   fst (main Map.empty [''merge_openapi.py'', ''out.yaml'', ''a.yaml'']
       \<lparr>files = [''a.yaml'' \<mapsto> YDict []], writable = (\<lambda>p. True), stdout = []\<rparr>) = Finished"
proof -
  let ?w = "\<lparr>files = Map.empty, writable = (\<lambda>p. True), stdout = []\<rparr>"
  let ?w2 = "\<lparr>files = [''a.yaml'' \<mapsto> YDict []], writable = (\<lambda>p. True), stdout = []\<rparr>"
  have l: "length [''merge_openapi.py'', ''out.yaml''] < 3" by simp
  from main_usage [of "[''merge_openapi.py'', ''out.yaml'']" Map.empty ?w] l
  have m: "main Map.empty [''merge_openapi.py'', ''out.yaml''] ?w =
      (SystemExit 1, ?w\<lparr>stdout := stdout ?w @ [usage]\<rparr>)"
    by blast
  have l2: "3 \<le> length [''merge_openapi.py'', ''out.yaml'', ''a.yaml'']" by simp
  have ms: "merge_specs Map.empty (files ?w2) (drop 2 [''merge_openapi.py'', ''out.yaml'', ''a.yaml'']) = Inr initial_out"
    by code_simp
  from main_usage [of "[''merge_openapi.py'', ''out.yaml'', ''a.yaml'']" Map.empty ?w2] l2
  have m2: "main Map.empty [''merge_openapi.py'', ''out.yaml'', ''a.yaml''] ?w2 =
        (case merge_specs Map.empty (files ?w2) (drop 2 [''merge_openapi.py'', ''out.yaml'', ''a.yaml'']) of
           Inl e \<Rightarrow> (Uncaught e, ?w2)
         | Inr merged \<Rightarrow>
             if writable ?w2 ([''merge_openapi.py'', ''out.yaml'', ''a.yaml''] ! 1) then
               (Finished,
                ?w2\<lparr>files := (files ?w2)([''merge_openapi.py'', ''out.yaml'', ''a.yaml''] ! 1 \<mapsto> YDict merged),
                  stdout := stdout ?w2 @
                    [''Wrote '' @ [''merge_openapi.py'', ''out.yaml'', ''a.yaml''] ! 1 @ '' from '' @ show_nat (length [''merge_openapi.py'', ''out.yaml'', ''a.yaml''] - 2) @
                     '' inputs'']\<rparr>)
             else (Uncaught (WriteError ([''merge_openapi.py'', ''out.yaml'', ''a.yaml''] ! 1)), ?w2))"
    by blast
  have f: "fst (main Map.empty [''merge_openapi.py'', ''out.yaml'', ''a.yaml''] ?w2) = Finished"
    unfolding m2 ms by simp
  show ?thesis unfolding m using f by simp
qed


section \<open>The order of the keys written\<close>

lemma keys_shape: "map fst (shape d) = map fst d"
  by (simp add: shape_def comp_def)

lemma merge_specs_keys:
  assumes "merge_specs env fs ps = Inr r"
  shows "map fst r =
     [''openapi'', ''info'', ''paths'', ''components'', ''tags''] @
     (if default_server env \<noteq> [] then [''servers''] else [])"
proof -
  from assms obtain st where l: "merge_loop fs ps \<lparr>out = start_out env, seen_tags = {}\<rparr> = Inr st"
    and r: "r = out st"
    by (auto simp: merge_specs_def split: sum.splits)
  from merge_loop_frame[OF l] shape_ok_start_out r
  have "shape r = shape (start_out env)" by simp
  then have "map fst (shape r) = map fst (shape (start_out env))" by simp
  then show ?thesis
    unfolding shape_start_out(1) keys_shape by (simp add: top_kinds_def)
qed

text \<open>
  C8, as the code has it. The document written to the output path is the dict that
  \<^verbatim>\<open>merge_specs\<close> returns, its keys in their insertion order:
  \<^verbatim>\<open>openapi\<close>, \<^verbatim>\<open>info\<close>, \<^verbatim>\<open>paths\<close>, \<^verbatim>\<open>components\<close>, \<^verbatim>\<open>tags\<close>, and
  \<^verbatim>\<open>servers\<close> last, after \<^verbatim>\<open>tags\<close>, when the override is set:
  \<^verbatim>\<open>out['servers'] = ...\<close> adds the key to a dict that has the other five already.
\<close>

theorem output_key_order:
  assumes "main env argv w = (Finished, w')"
  shows "\<exists>merged. merge_specs env (files w) (drop 2 argv) = Inr merged \<and>
     files w' (argv ! 1) = Some (YDict merged) \<and>
     map fst merged =
       [''openapi'', ''info'', ''paths'', ''components'', ''tags''] @
       (if default_server env \<noteq> [] then [''servers''] else [])"
proof -
  from assms obtain merged where m: "merge_specs env (files w) (drop 2 argv) = Inr merged"
    and w': "w' = w\<lparr>files := (files w)(argv ! 1 \<mapsto> YDict merged),
                  stdout := stdout w @
                    [''Wrote '' @ argv ! 1 @ '' from '' @ show_nat (length (drop 2 argv)) @
                     '' inputs'']\<rparr>"
    by (auto simp: main_def Let_def split: sum.splits if_splits)
  from w' have "files w' (argv ! 1) = Some (YDict merged)" by simp
  with m merge_specs_keys[OF m] show ?thesis by blast
qed

theorem output_key_order_witness:
  "fst (main [''MERGE_DEFAULT_SERVER'' \<mapsto> ''  http://h '']
          [''merge_openapi.py'', ''out.yaml'', ''a.yaml'']
          \<lparr>files = [''a.yaml'' \<mapsto> YDict [(''servers'', YList []), (''paths'', YDict [(''/x'', YInt 1)])]],
           writable = (\<lambda>p. True), stdout = []\<rparr>) = Finished \<and>
   (\<exists>merged.
      files (snd (main [''MERGE_DEFAULT_SERVER'' \<mapsto> ''  http://h '']
          [''merge_openapi.py'', ''out.yaml'', ''a.yaml'']
          \<lparr>files = [''a.yaml'' \<mapsto> YDict [(''servers'', YList []), (''paths'', YDict [(''/x'', YInt 1)])]],
           writable = (\<lambda>p. True), stdout = []\<rparr>)) ''out.yaml'' = Some (YDict merged) \<and>
      map fst merged = [''openapi'', ''info'', ''paths'', ''components'', ''tags'', ''servers''])"
proof -
  define env :: environ where "env = [''MERGE_DEFAULT_SERVER'' \<mapsto> ''  http://h '']"
  define argv where "argv = [''merge_openapi.py'', ''out.yaml'', ''a.yaml'']"
  define w where "w = \<lparr>files = [''a.yaml'' \<mapsto> YDict [(''servers'', YList []), (''paths'', YDict [(''/x'', YInt 1)])]],
           writable = (\<lambda>p. True), stdout = []\<rparr>"
  have f: "fst (main env argv w) = Finished"
    unfolding env_def argv_def w_def by code_simp
  then have m: "main env argv w = (Finished, snd (main env argv w))"
    by (metis prod.collapse)
  have ds: "default_server env \<noteq> []" unfolding env_def by code_simp
  have a1: "argv ! 1 = ''out.yaml''" unfolding argv_def by simp
  from output_key_order [OF m] ds a1
  have "\<exists>merged. files (snd (main env argv w)) ''out.yaml'' = Some (YDict merged) \<and>
      map fst merged = [''openapi'', ''info'', ''paths'', ''components'', ''tags'', ''servers'']"
    by auto
  with f show ?thesis unfolding env_def argv_def w_def by blast
qed

text \<open>
  C8, as the claim has it (\<^verbatim>\<open>servers\<close> first), fails: with the override set, the
  document written starts with \<^verbatim>\<open>openapi\<close> and ends with \<^verbatim>\<open>servers\<close>.
\<close>

theorem servers_key_first_counterexample:
  "fst (main [''MERGE_DEFAULT_SERVER'' \<mapsto> ''https://api.example.com'']
          [''merge_openapi.py'', ''out.yaml'', ''a.yaml'']
          \<lparr>files = [''a.yaml'' \<mapsto> YDict []], writable = (\<lambda>p. True), stdout = []\<rparr>) = Finished \<and>
   (case files (snd (main [''MERGE_DEFAULT_SERVER'' \<mapsto> ''https://api.example.com'']
          [''merge_openapi.py'', ''out.yaml'', ''a.yaml'']
          \<lparr>files = [''a.yaml'' \<mapsto> YDict []], writable = (\<lambda>p. True), stdout = []\<rparr>)) ''out.yaml'' of
      Some (YDict m) \<Rightarrow>
        map fst m = [''openapi'', ''info'', ''paths'', ''components'', ''tags'', ''servers''] \<and>
        hd (map fst m) \<noteq> ''servers''
    | _ \<Rightarrow> False)"
  by code_simp


section \<open>The servers entry\<close>

lemma strip_empty_iff: "strip s = [] \<longleftrightarrow> (\<forall>c\<in>set s. isspace c)"
proof
  assume "strip s = []"
  then have a: "\<forall>x\<in>set (dropWhile isspace s). isspace x"
    by (simp add: strip_def)
  have "dropWhile isspace s = []"
  proof (rule ccontr)
    assume n: "dropWhile isspace s \<noteq> []"
    then have "\<not> isspace (hd (dropWhile isspace s))" by (rule hd_dropWhile)
    moreover from n have "hd (dropWhile isspace s) \<in> set (dropWhile isspace s)"
      by (rule hd_in_set)
    ultimately show False using a by blast
  qed
  then show "\<forall>c\<in>set s. isspace c" by simp
next
  assume "\<forall>c\<in>set s. isspace c"
  then have d: "dropWhile isspace s = []" by simp
  show "strip s = []" unfolding strip_def d by simp
qed

lemma map_of_filter_other:
  "k \<noteq> k0 \<Longrightarrow> map_of (filter (\<lambda>kv. fst kv \<noteq> k0) kvs) k = map_of kvs k"
  by (induction kvs) auto

lemma py_get_without_servers:
  "k \<noteq> ''servers'' \<Longrightarrow> py_get (without_servers spec) k dflt = py_get spec k dflt"
  by (cases spec) (simp_all add: py_get_def map_of_filter_other)

lemma paths_step_without_servers:
  "paths_step (without_servers spec) d = paths_step spec d"
  by (simp add: paths_step_def py_get_without_servers split: sum.splits)

lemma components_step_without_servers:
  "components_step (without_servers spec) d = components_step spec d"
  by (simp add: components_step_def py_get_without_servers)

lemma tags_step_without_servers:
  "tags_step (without_servers spec) st = tags_step spec st"
  by (simp add: tags_step_def py_get_without_servers)

lemma merge_spec_without_servers:
  "merge_spec (without_servers spec) st = merge_spec spec st"
  by (simp add: merge_spec_def paths_step_without_servers components_step_without_servers
      tags_step_without_servers cong: sum.case_cong)

lemma merge_loop_without_servers:
  "merge_loop (\<lambda>p. map_option without_servers (fs p)) ps st = merge_loop fs ps st"
proof (induction ps arbitrary: st)
  case Nil
  then show ?case by simp
next
  case (Cons p ps)
  show ?case
  proof (cases "fs p")
    case None
    then show ?thesis by (simp add: load_yaml_def)
  next
    case (Some spec)
    then show ?thesis
      by (simp add: load_yaml_def merge_spec_without_servers Cons.IH split: sum.splits)
  qed
qed

lemma map_of_start_out_servers:
  "map_of (start_out env) ''servers'' =
     (if default_server env \<noteq> [] then
        Some (YList [YDict [(''url'', YStr (default_server env)),
                            (''description'', YStr ''Default'')]])
      else None)"
  by (simp add: start_out_def initial_out_def)

text \<open>
  C3. The result of \<^verbatim>\<open>merge_specs\<close> has a \<^verbatim>\<open>servers\<close> entry exactly when the value of
  \<^verbatim>\<open>MERGE_DEFAULT_SERVER\<close> (the empty string when unset), stripped of white space at both
  ends, is not empty; the entry is then the one-element list with the mapping of
  \<^verbatim>\<open>url\<close> to the stripped value and \<^verbatim>\<open>description\<close> to \<^verbatim>\<open>Default\<close>. The
  \<^verbatim>\<open>servers\<close> entries of the inputs are never read: removing them from every input
  changes nothing in what \<^verbatim>\<open>merge_specs\<close> returns.
\<close>

theorem servers_only_from_override:
  "default_server env =
     strip (case env ''MERGE_DEFAULT_SERVER'' of None \<Rightarrow> [] | Some s \<Rightarrow> s) \<and>
   (\<forall>r. merge_specs env fs ps = Inr r \<longrightarrow>
      map_of r ''servers'' =
        (if default_server env \<noteq> [] then
           Some (YList [YDict [(''url'', YStr (default_server env)),
                               (''description'', YStr ''Default'')]])
         else None)) \<and>
   merge_specs env (\<lambda>p. map_option without_servers (fs p)) ps = merge_specs env fs ps"
proof -
  have a: "map_of r ''servers'' =
        (if default_server env \<noteq> [] then
           Some (YList [YDict [(''url'', YStr (default_server env)),
                               (''description'', YStr ''Default'')]])
         else None)" if "merge_specs env fs ps = Inr r" for r
  proof -
    from that obtain st where l: "merge_loop fs ps \<lparr>out = start_out env, seen_tags = {}\<rparr> = Inr st"
      and r: "r = out st"
      by (auto simp: merge_specs_def split: sum.splits)
    from merge_loop_frame[OF l] shape_ok_start_out r
    have "map_of r ''servers'' = map_of (start_out env) ''servers''" by simp
    then show ?thesis by (simp only: map_of_start_out_servers)
  qed
  have b: "merge_specs env (\<lambda>p. map_option without_servers (fs p)) ps = merge_specs env fs ps"
    by (simp add: merge_specs_def merge_loop_without_servers)
  show ?thesis using a b by (simp add: default_server_def)
qed

theorem servers_only_from_override_witness:
  "\<exists>r. merge_specs [''MERGE_DEFAULT_SERVER'' \<mapsto> ''  https://api.example.com '']
         [''a.yaml'' \<mapsto> YDict [(''servers'', YList [YDict [(''url'', YStr ''http://in'')]]),
                                (''paths'', YDict [(''/x'', YInt 1)])]]
         [''a.yaml''] = Inr r \<and>
       map_of r ''servers'' =
         Some (YList [YDict [(''url'', YStr ''https://api.example.com''),
                             (''description'', YStr ''Default'')]]) \<and>
       merge_specs [''MERGE_DEFAULT_SERVER'' \<mapsto> ''  https://api.example.com '']
         [''a.yaml'' \<mapsto> YDict [(''paths'', YDict [(''/x'', YInt 1)])]]
         [''a.yaml''] = Inr r"
proof -
  define env :: environ where "env = [''MERGE_DEFAULT_SERVER'' \<mapsto> ''  https://api.example.com '']"
  define fs :: files where
    "fs = [''a.yaml'' \<mapsto> YDict [(''servers'', YList [YDict [(''url'', YStr ''http://in'')]]),
                                (''paths'', YDict [(''/x'', YInt 1)])]]"
  define fs' :: files where
    "fs' = [''a.yaml'' \<mapsto> YDict [(''paths'', YDict [(''/x'', YInt 1)])]]"
  have "merge_specs env fs [''a.yaml''] =
      Inr [(''openapi'', YStr ''3.0.3''),
           (''info'', YDict [(''title'', YStr ''FocusNest - All Services''),
                             (''version'', YStr ''1.0.0'')]),
           (''paths'', YDict [(''/x'', YInt 1)]),
           (''components'', YDict [(''schemas'', YDict []),
                                   (''securitySchemes'', YDict []),
                                   (''parameters'', YDict []), (''responses'', YDict [])]),
           (''tags'', YList []),
           (''servers'', YList [YDict [(''url'', YStr ''https://api.example.com''),
                                       (''description'', YStr ''Default'')]])]"
    unfolding env_def fs_def by code_simp
  then obtain r where r: "merge_specs env fs [''a.yaml''] = Inr r" by blast
  have ds: "default_server env = ''https://api.example.com''" unfolding env_def by code_simp
  have eq: "(\<lambda>p. map_option without_servers (fs p)) = fs'"
    unfolding fs_def fs'_def by (rule ext) simp
  note t = servers_only_from_override [of env fs "[''a.yaml'']"]
  from t [THEN conjunct2, THEN conjunct1, rule_format, OF r] ds
  have s: "map_of r ''servers'' =
         Some (YList [YDict [(''url'', YStr ''https://api.example.com''),
                             (''description'', YStr ''Default'')]])"
    by simp
  from t [THEN conjunct2, THEN conjunct2] r eq
  have "merge_specs env fs' [''a.yaml''] = Inr r" by simp
  with r s show ?thesis unfolding env_def fs_def fs'_def by blast
qed

section \<open>Sections that an input does not have\<close>

lemma shape_ok_lookups:
  assumes "shape_ok d"
  shows "\<exists>p c t. map_of d ''paths'' = Some (YDict p) \<and>
           map_of d ''components'' = Some (YDict c) \<and>
           map_of d ''tags'' = Some (YList t) \<and>
           (\<forall>key\<in>set component_keys. \<exists>s. map_of c key = Some (YDict s))"
proof -
  have kd: "kind_of v = KDict \<longleftrightarrow> (\<exists>x. v = YDict x)" for v by (cases v) auto
  have kl: "kind_of v = KList \<longleftrightarrow> (\<exists>x. v = YList x)" for v by (cases v) auto
  from assms have "map_of (shape d) ''paths'' = Some KDict"
    and "map_of (shape d) ''components'' = Some KDict"
    and "map_of (shape d) ''tags'' = Some KList"
    by (auto simp: shape_ok_def top_kinds_def)
  then obtain p c t where p: "map_of d ''paths'' = Some (YDict p)"
    and c: "map_of d ''components'' = Some (YDict c)"
    and t: "map_of d ''tags'' = Some (YList t)"
    unfolding map_of_shape by (auto simp: kd kl)
  from assms c have sc: "shape c = component_kinds"
    by (simp add: shape_ok_def comp_shape_def)
  have "\<exists>s. map_of c key = Some (YDict s)" if "key \<in> set component_keys" for key
  proof -
    from that have "map_of (shape c) key = Some KDict"
      unfolding sc by (auto simp: component_kinds_def component_keys_def)
    then show ?thesis unfolding map_of_shape by (auto simp: kd)
  qed
  with p c t show ?thesis by blast
qed

lemma deep_merge_dict_empty:
  "\<not> truthy src \<Longrightarrow> deep_merge_dict dst src = Inr dst"
  by (simp add: deep_merge_dict.simps py_or_def)

lemma paths_step_absent:
  assumes "shape_ok d" and "map_of kvs ''paths'' = None \<or> map_of kvs ''paths'' = Some v \<and> \<not> truthy v"
  shows "paths_step (YDict kvs) d = Inr d"
proof -
  from shape_ok_lookups[OF assms(1)] obtain p where p: "map_of d ''paths'' = Some (YDict p)"
    by blast
  from assms(2) obtain src where s: "py_get (YDict kvs) ''paths'' (YDict []) = Inr src"
    and f: "\<not> truthy src"
    by (auto simp: py_get_def)
  show ?thesis
    unfolding paths_step_def getitem_def
    using p s f by (simp add: deep_merge_dict_empty setitem_same)
qed

lemma component_step_absent:
  assumes "shape_ok d" and "key \<in> set component_keys"
    and "map_of c key = None \<or> map_of c key = Some v \<and> \<not> truthy v"
  shows "component_step (YDict c) key d = Inr d"
proof -
  from shape_ok_lookups[OF assms(1)] assms(2) obtain cs s
    where cs: "map_of d ''components'' = Some (YDict cs)"
      and s: "map_of cs key = Some (YDict s)"
    by blast
  from assms(3) obtain src where g: "py_get (YDict c) key (YDict []) = Inr src"
    and f: "\<not> truthy (py_or src (YDict []))"
    by (auto simp: py_get_def py_or_def)
  have sd: "setdefault cs key (YDict []) = (cs, YDict s)" using s by (simp add: setdefault_def)
  show ?thesis
    unfolding component_step_def getitem_def
    using cs sd g f by (simp add: deep_merge_dict_empty setitem_same s)
qed

lemma components_loop_absent:
  assumes "shape_ok d" and "set keys \<subseteq> set component_keys"
    and "\<forall>key\<in>set keys. map_of c key = None \<or> (\<exists>v. map_of c key = Some v \<and> \<not> truthy v)"
  shows "components_loop (YDict c) keys d = Inr d"
  using assms(2,3)
proof (induction keys)
  case Nil
  then show ?case by simp
next
  case (Cons key keys)
  then have "component_step (YDict c) key d = Inr d"
    using component_step_absent[OF assms(1), of key c] by auto
  with Cons show ?case by simp
qed

lemma components_step_absent:
  assumes "shape_ok d"
    and "map_of kvs ''components'' = None \<or> map_of kvs ''components'' = Some v \<and> \<not> truthy v"
  shows "components_step (YDict kvs) d = Inr d"
proof -
  from assms(2) obtain c where g: "py_get (YDict kvs) ''components'' (YDict []) = Inr c"
    and f: "py_or c (YDict []) = YDict []"
    by (auto simp: py_get_def py_or_def)
  show ?thesis
    using components_loop_absent[OF assms(1), of component_keys "[]"]
    by (simp add: components_step_def g f)
qed

lemma tags_step_absent:
  assumes "map_of kvs ''tags'' = None \<or> map_of kvs ''tags'' = Some v \<and> \<not> truthy v"
  shows "tags_step (YDict kvs) st = Inr st"
proof -
  from assms obtain tg where g: "py_get (YDict kvs) ''tags'' (YList []) = Inr tg"
    and f: "py_or tg (YList []) = YList []"
    by (auto simp: py_get_def py_or_def)
  show ?thesis by (simp add: tags_step_def g f)
qed


text \<open>
  C10. Take an input document, a mapping, and an accumulator of the shape above. When
  \<^verbatim>\<open>paths\<close> is absent or null in the document, the merge of \<^verbatim>\<open>paths\<close> raises nothing
  and returns the accumulator as it was; so do the merge of \<^verbatim>\<open>components\<close> when
  \<^verbatim>\<open>components\<close> is absent or null, the merge of one of the four sub-containers when
  it is absent or null under \<^verbatim>\<open>components\<close>, and the loop over the tags when
  \<^verbatim>\<open>tags\<close> is absent or null. A document with none of the three leaves the state of
  the loop as it was.
\<close>

theorem absent_sections_contribute_nothing:
  assumes "shape_ok (out st)"
  shows "(absent_or_null kvs ''paths'' \<longrightarrow>
            paths_step (YDict kvs) (out st) = Inr (out st)) \<and>
         (absent_or_null kvs ''components'' \<longrightarrow>
            components_step (YDict kvs) (out st) = Inr (out st)) \<and>
         (\<forall>key c. key \<in> set component_keys \<and> absent_or_null c key \<longrightarrow>
            component_step (YDict c) key (out st) = Inr (out st)) \<and>
         (absent_or_null kvs ''tags'' \<longrightarrow> tags_step (YDict kvs) st = Inr st) \<and>
         (absent_or_null kvs ''paths'' \<and> absent_or_null kvs ''components'' \<and>
          absent_or_null kvs ''tags'' \<longrightarrow> merge_spec (YDict kvs) st = Inr st)"
proof -
  have n: "\<not> truthy YNull" by simp
  have p: "paths_step (YDict kvs) (out st) = Inr (out st)" if "absent_or_null kvs ''paths''"
    using that paths_step_absent[OF assms, of kvs YNull] by (auto simp: absent_or_null_def)
  have c: "components_step (YDict kvs) (out st) = Inr (out st)"
    if "absent_or_null kvs ''components''"
    using that components_step_absent[OF assms, of kvs YNull]
    by (auto simp: absent_or_null_def)
  have k: "component_step (YDict c) key (out st) = Inr (out st)"
    if "key \<in> set component_keys \<and> absent_or_null c key" for key c
    using that component_step_absent[OF assms, of key c YNull]
    by (auto simp: absent_or_null_def)
  have t: "tags_step (YDict kvs) st = Inr st" if "absent_or_null kvs ''tags''"
    using that tags_step_absent[of kvs YNull st] by (auto simp: absent_or_null_def)
  have m: "merge_spec (YDict kvs) st = Inr st"
    if "absent_or_null kvs ''paths'' \<and> absent_or_null kvs ''components'' \<and>
        absent_or_null kvs ''tags''"
    using that p c t by (simp add: merge_spec_def)
  show ?thesis using p c k t m by blast
qed

theorem absent_sections_contribute_nothing_witness:
  "shape_ok initial_out \<and>
   paths_step (YDict [(''paths'', YNull), (''tags'', YNull)]) initial_out = Inr initial_out \<and>
   components_step (YDict [(''paths'', YNull), (''tags'', YNull)]) initial_out = Inr initial_out \<and>
   component_step (YDict [(''schemas'', YNull)]) ''schemas'' initial_out = Inr initial_out \<and>
   tags_step (YDict [(''paths'', YNull), (''tags'', YNull)]) \<lparr>out = initial_out, seen_tags = {}\<rparr> =
     Inr \<lparr>out = initial_out, seen_tags = {}\<rparr> \<and>
   merge_spec (YDict [(''paths'', YNull), (''tags'', YNull)]) \<lparr>out = initial_out, seen_tags = {}\<rparr> =
     Inr \<lparr>out = initial_out, seen_tags = {}\<rparr>"
proof -
  let ?st = "\<lparr>out = initial_out, seen_tags = {}\<rparr>"
  let ?kvs = "[(''paths'', YNull), (''tags'', YNull)]"
  have h: "shape_ok (out ?st)"
    by (simp add: shape_ok_def shape_def comp_shape_def initial_out_def top_kinds_def
        component_kinds_def)
  have a: "absent_or_null ?kvs ''paths''" "absent_or_null ?kvs ''components''"
    "absent_or_null ?kvs ''tags''" "absent_or_null [(''schemas'', YNull)] ''schemas''"
    "''schemas'' \<in> set component_keys"
    by (simp_all add: absent_or_null_def component_keys_def)
  note t = absent_sections_contribute_nothing [OF h, of ?kvs]
  have 1: "paths_step (YDict ?kvs) initial_out = Inr initial_out"
    using t [THEN conjunct1] a by simp
  have 2: "components_step (YDict ?kvs) initial_out = Inr initial_out"
    using t [THEN conjunct2, THEN conjunct1] a by simp
  have 3: "component_step (YDict [(''schemas'', YNull)]) ''schemas'' initial_out = Inr initial_out"
    using t [THEN conjunct2, THEN conjunct2, THEN conjunct1, rule_format,
        of "''schemas''" "[(''schemas'', YNull)]"] a by simp
  have 4: "tags_step (YDict ?kvs) ?st = Inr ?st"
    using t [THEN conjunct2, THEN conjunct2, THEN conjunct2, THEN conjunct1] a by simp
  have 5: "merge_spec (YDict ?kvs) ?st = Inr ?st"
    using t [THEN conjunct2, THEN conjunct2, THEN conjunct2, THEN conjunct2] a by simp
  from h 1 2 3 4 5 show ?thesis by simp
qed

section \<open>An input that cannot be loaded\<close>

lemma merge_loop_append:
  "merge_loop fs (ps @ qs) st =
     (case merge_loop fs ps st of Inl e \<Rightarrow> Inl e | Inr st' \<Rightarrow> merge_loop fs qs st')"
  by (induction ps arbitrary: st) (auto split: sum.splits)

lemma merge_spec_not_dict: "\<not> is_dict spec \<Longrightarrow> \<exists>e. merge_spec spec st = Inl e"
  by (cases spec)
    (auto simp: merge_spec_def paths_step_def py_get_def getitem_def
      split: sum.splits option.splits yaml.splits)

lemma merge_spec_not_dict_ok:
  "\<not> is_dict spec \<Longrightarrow> shape_ok (out st) \<Longrightarrow> merge_spec spec st = Inl AttributeError"
  using shape_ok_lookups[of "out st"]
  by (cases spec) (auto simp: merge_spec_def paths_step_def py_get_def getitem_def)

lemma merge_loop_cannot:
  "p \<in> set ps \<Longrightarrow> cannot_merge fs p \<Longrightarrow> \<exists>e. merge_loop fs ps st = Inl e"
proof (induction ps arbitrary: st)
  case Nil
  then show ?case by simp
next
  case (Cons q qs)
  show ?case
  proof (cases "q = p")
    case True
    show ?thesis
    proof (cases "fs p")
      case None
      with True show ?thesis by (simp add: load_yaml_def)
    next
      case (Some d)
      with Cons.prems(2) have "\<not> is_dict d" by (simp add: cannot_merge_def)
      from merge_spec_not_dict[OF this, of st] obtain e where "merge_spec d st = Inl e" by blast
      with True Some show ?thesis by (simp add: load_yaml_def)
    qed
  next
    case False
    with Cons show ?thesis
      by (auto simp: load_yaml_def split: sum.splits option.splits)
  qed
qed

text \<open>
  C4, as the code has it. When one of the input paths cannot be loaded, or its document
  is not a mapping, \<^verbatim>\<open>main\<close> ends by an uncaught exception, with a status that is not
  zero, and the files and the output are as they were: no output file is written and
  nothing is printed. When the inputs listed before that path load and merge without an
  exception, the exception is the one of that path: for a path that cannot be loaded the
  exception of \<^verbatim>\<open>load_yaml\<close>, whose traceback names the file when it is an
  \<^verbatim>\<open>OSError\<close> or a \<^verbatim>\<open>yaml.YAMLError\<close> and names no file when it is a
  \<^verbatim>\<open>UnicodeDecodeError\<close>; for a document that is not a mapping the
  \<^verbatim>\<open>AttributeError\<close> of \<^verbatim>\<open>spec.get\<close>, whose traceback names no file. Otherwise the
  run has ended before, at an earlier input.
\<close>

theorem load_failure_aborts:
  assumes "3 \<le> length argv" and "p \<in> set (drop 2 argv)" and "cannot_merge (files w) p"
  shows "\<exists>e. main env argv w = (Uncaught e, w) \<and> exit_status (Uncaught e) \<noteq> 0 \<and>
           (\<forall>ps qs st. drop 2 argv = ps @ p # qs \<and>
               merge_loop (files w) ps \<lparr>out = start_out env, seen_tags = {}\<rparr> = Inr st \<longrightarrow>
               (case files w p of
                  None \<Rightarrow> e = LoadError p \<and>
                    named_file why e = (if message_has_path (why p) then Some p else None)
                | Some d \<Rightarrow> e = AttributeError \<and> named_file why e = None))"
proof -
  let ?st0 = "\<lparr>out = start_out env, seen_tags = {}\<rparr>"
  from merge_loop_cannot[of p "drop 2 argv" "files w" ?st0] assms(2,3) obtain e
    where e: "merge_loop (files w) (drop 2 argv) ?st0 = Inl e" by blast
  then have m: "main env argv w = (Uncaught e, w)"
    using assms(1) by (simp add: main_def merge_specs_def Let_def)
  have x: "exit_status (Uncaught e) \<noteq> 0" by simp
  have n: "case files w p of
          None \<Rightarrow> e = LoadError p \<and>
            named_file why e = (if message_has_path (why p) then Some p else None)
        | Some d \<Rightarrow> e = AttributeError \<and> named_file why e = None"
    if h: "drop 2 argv = ps @ p # qs \<and> merge_loop (files w) ps ?st0 = Inr st" for ps qs st
  proof (cases "files w p")
    case None
    with h e have "e = LoadError p" by (simp add: merge_loop_append load_yaml_def)
    with None show ?thesis by simp
  next
    case (Some d)
    with assms(3) have nd: "\<not> is_dict d" by (simp add: cannot_merge_def)
    from h merge_loop_frame[of "files w" ps ?st0 st] shape_ok_start_out
    have "shape_ok (out st)" by simp
    from merge_spec_not_dict_ok[OF nd this] h e Some have "e = AttributeError"
      by (simp add: merge_loop_append load_yaml_def)
    with Some show ?thesis by simp
  qed
  from m x n show ?thesis by blast
qed


theorem load_failure_aborts_witness:
  "fst (main Map.empty [''merge_openapi.py'', ''out.yaml'', ''a.yaml'', ''b.yaml'']
      \<lparr>files = [''a.yaml'' \<mapsto> YDict []], writable = (\<lambda>p. True), stdout = []\<rparr>) =
     Uncaught (LoadError ''b.yaml'') \<and>
   named_file (\<lambda>p. FileNotFound) (LoadError ''b.yaml'') = Some ''b.yaml'' \<and>
   named_file (\<lambda>p. NotUtf8) (LoadError ''b.yaml'') = None \<and>
   files (snd (main Map.empty [''merge_openapi.py'', ''out.yaml'', ''a.yaml'', ''b.yaml'']
      \<lparr>files = [''a.yaml'' \<mapsto> YDict []], writable = (\<lambda>p. True), stdout = []\<rparr>)) ''out.yaml'' = None \<and>
   stdout (snd (main Map.empty [''merge_openapi.py'', ''out.yaml'', ''a.yaml'', ''b.yaml'']
      \<lparr>files = [''a.yaml'' \<mapsto> YDict []], writable = (\<lambda>p. True), stdout = []\<rparr>)) = [] \<and>
   fst (main Map.empty [''merge_openapi.py'', ''out.yaml'', ''c.yaml'']
      \<lparr>files = [''c.yaml'' \<mapsto> YList [YInt 1]], writable = (\<lambda>p. True), stdout = []\<rparr>) =
     Uncaught AttributeError \<and>
   named_file (\<lambda>p. FileNotFound) AttributeError = None"
proof -
  define argv where "argv = [''merge_openapi.py'', ''out.yaml'', ''a.yaml'', ''b.yaml'']"
  define w where "w = \<lparr>files = [''a.yaml'' \<mapsto> YDict []], writable = (\<lambda>p. True), stdout = []\<rparr>"
  have 1: "3 \<le> length argv" and 2: "''b.yaml'' \<in> set (drop 2 argv)"
    and 3: "cannot_merge (files w) ''b.yaml''" and f: "files w ''b.yaml'' = None"
    by (simp_all add: argv_def w_def cannot_merge_def)
  have d: "drop 2 argv = [''a.yaml''] @ ''b.yaml'' # []" by (simp add: argv_def)
  have l: "merge_loop (files w) [''a.yaml''] \<lparr>out = start_out Map.empty, seen_tags = {}\<rparr> =
      Inr \<lparr>out = initial_out, seen_tags = {}\<rparr>"
    unfolding w_def by code_simp
  from load_failure_aborts [OF 1 2 3, of Map.empty "\<lambda>p. FileNotFound"] obtain e
    where m: "main Map.empty argv w = (Uncaught e, w)"
      and n: "\<forall>ps qs st. drop 2 argv = ps @ ''b.yaml'' # qs \<and>
               merge_loop (files w) ps \<lparr>out = start_out Map.empty, seen_tags = {}\<rparr> = Inr st \<longrightarrow>
               (case files w ''b.yaml'' of
                  None \<Rightarrow> e = LoadError ''b.yaml'' \<and>
                    named_file (\<lambda>p. FileNotFound) e =
                      (if message_has_path FileNotFound then Some ''b.yaml'' else None)
                | Some d \<Rightarrow> e = AttributeError \<and> named_file (\<lambda>p. FileNotFound) e = None)"
    by blast
  from n d l have "case files w ''b.yaml'' of
                  None \<Rightarrow> e = LoadError ''b.yaml'' \<and>
                    named_file (\<lambda>p. FileNotFound) e =
                      (if message_has_path FileNotFound then Some ''b.yaml'' else None)
                | Some d \<Rightarrow> e = AttributeError \<and> named_file (\<lambda>p. FileNotFound) e = None"
    by blast
  with f have eb: "e = LoadError ''b.yaml''" by simp
  define argv' where "argv' = [''merge_openapi.py'', ''out.yaml'', ''c.yaml'']"
  define w' where "w' = \<lparr>files = [''c.yaml'' \<mapsto> YList [YInt 1]], writable = (\<lambda>p. True), stdout = []\<rparr>"
  have b1: "3 \<le> length argv'" and b2: "''c.yaml'' \<in> set (drop 2 argv')"
    and b3: "cannot_merge (files w') ''c.yaml''"
    and f': "files w' ''c.yaml'' = Some (YList [YInt 1])"
    by (simp_all add: argv'_def w'_def cannot_merge_def)
  have d': "drop 2 argv' = [] @ ''c.yaml'' # []" by (simp add: argv'_def)
  have l': "merge_loop (files w') [] \<lparr>out = start_out Map.empty, seen_tags = {}\<rparr> =
      Inr \<lparr>out = start_out Map.empty, seen_tags = {}\<rparr>"
    by simp
  from load_failure_aborts [OF b1 b2 b3, of Map.empty "\<lambda>p. FileNotFound"] obtain e'
    where m': "main Map.empty argv' w' = (Uncaught e', w')"
      and n': "\<forall>ps qs st. drop 2 argv' = ps @ ''c.yaml'' # qs \<and>
               merge_loop (files w') ps \<lparr>out = start_out Map.empty, seen_tags = {}\<rparr> = Inr st \<longrightarrow>
               (case files w' ''c.yaml'' of
                  None \<Rightarrow> e' = LoadError ''c.yaml'' \<and>
                    named_file (\<lambda>p. FileNotFound) e' =
                      (if message_has_path FileNotFound then Some ''c.yaml'' else None)
                | Some d \<Rightarrow> e' = AttributeError \<and> named_file (\<lambda>p. FileNotFound) e' = None)"
    by blast
  from n' d' l' have "case files w' ''c.yaml'' of
                  None \<Rightarrow> e' = LoadError ''c.yaml'' \<and>
                    named_file (\<lambda>p. FileNotFound) e' =
                      (if message_has_path FileNotFound then Some ''c.yaml'' else None)
                | Some d \<Rightarrow> e' = AttributeError \<and> named_file (\<lambda>p. FileNotFound) e' = None"
    by blast
  with f' have ec: "e' = AttributeError" by simp
  from m eb m' ec show ?thesis unfolding argv_def w_def argv'_def w'_def by simp
qed

text \<open>
  C4, as the claim has it (the diagnostic always names the file that cannot be loaded),
  fails twice. \<^verbatim>\<open>a.yaml\<close> is an empty file, which \<^verbatim>\<open>safe_load\<close> parses to
  \<^verbatim>\<open>None\<close>, and \<^verbatim>\<open>b.yaml\<close> is missing: the run ends at \<^verbatim>\<open>spec.get\<close> on
  \<^verbatim>\<open>None\<close>, by an \<^verbatim>\<open>AttributeError\<close> that names no file. And \<^verbatim>\<open>b.yaml\<close> alone,
  a file that is not valid UTF-8: the run ends by a \<^verbatim>\<open>UnicodeDecodeError\<close>, whose
  message has no file name.
\<close>

theorem diagnostic_names_file_counterexample:
  "[''a.yaml'' \<mapsto> YNull] ''b.yaml'' = None \<and>
   fst (main Map.empty [''merge_openapi.py'', ''out.yaml'', ''a.yaml'', ''b.yaml'']
      \<lparr>files = [''a.yaml'' \<mapsto> YNull], writable = (\<lambda>p. True), stdout = []\<rparr>) =
     Uncaught AttributeError \<and>
   named_file (\<lambda>p. FileNotFound) AttributeError = None \<and>
   fst (main Map.empty [''merge_openapi.py'', ''out.yaml'', ''b.yaml'']
      \<lparr>files = Map.empty, writable = (\<lambda>p. True), stdout = []\<rparr>) =
     Uncaught (LoadError ''b.yaml'') \<and>
   named_file (\<lambda>p. NotUtf8) (LoadError ''b.yaml'') = None"
  by code_simp

section \<open>The tags\<close>

lemma first_named_snoc:
  "first_named (xs @ [t]) =
     first_named xs @
     (if truthy (tag_name t) \<and>
         py_hash (tag_name t) \<notin> set (map (\<lambda>t. py_hash (tag_name t)) xs)
      then [t] else [])"
proof -
  let ?P = "\<lambda>ts i. truthy (tag_name (ts ! i)) \<and>
       py_hash (tag_name (ts ! i)) \<notin> set (map (\<lambda>t. py_hash (tag_name t)) (take i ts))"
  have A: "filter (?P (xs @ [t])) [0..<length xs] = filter (?P xs) [0..<length xs]"
    by (rule filter_cong) (auto simp: nth_append)
  have B: "map (\<lambda>i. (xs @ [t]) ! i) (filter (?P xs) [0..<length xs]) =
           map (\<lambda>i. xs ! i) (filter (?P xs) [0..<length xs])"
    by (rule map_cong) (auto simp: nth_append)
  show ?thesis
    unfolding first_named_def using A B by simp
qed

lemma first_named_Nil: "first_named [] = []"
  by (simp add: first_named_def)

lemma set_first_named: "set (first_named ts) \<subseteq> set ts"
  by (auto simp: first_named_def)

lemma first_named_truthy: "t \<in> set (first_named ts) \<Longrightarrow> truthy (tag_name t)"
  by (auto simp: first_named_def)

lemma distinct_first_named:
  "distinct (map (\<lambda>t. py_hash (tag_name t)) (first_named ts))"
proof (induction ts rule: rev_induct)
  case Nil
  then show ?case by (simp add: first_named_Nil)
next
  case (snoc t ts)
  then show ?case
    using set_first_named[of ts] by (auto simp: first_named_snoc)
qed

lemma hash_truthy:
  "py_hash a = Inr h \<Longrightarrow> py_hash b = Inr h \<Longrightarrow> truthy a = truthy b"
  by (cases a; cases b) (auto split: if_splits)

lemma seen_of_snoc:
  "seen_of (xs @ [t]) =
     (if truthy (tag_name t) then
        (case py_hash (tag_name t) of Inr h \<Rightarrow> insert h (seen_of xs) | Inl e \<Rightarrow> seen_of xs)
      else seen_of xs)"
  by (auto simp: seen_of_def split: sum.splits)

lemma in_seen_of:
  assumes "truthy name" and "py_hash name = Inr h"
  shows "h \<in> seen_of xs \<longleftrightarrow> py_hash name \<in> set (map (\<lambda>t. py_hash (tag_name t)) xs)"
proof
  assume "h \<in> seen_of xs"
  then show "py_hash name \<in> set (map (\<lambda>t. py_hash (tag_name t)) xs)"
    using assms(2) by (force simp: seen_of_def)
next
  assume "py_hash name \<in> set (map (\<lambda>t. py_hash (tag_name t)) xs)"
  then obtain t where t: "t \<in> set xs" "py_hash (tag_name t) = Inr h"
    using assms(2) by auto
  with hash_truthy[OF assms(2) t(2)] assms(1) show "h \<in> seen_of xs"
    by (auto simp: seen_of_def)
qed

lemma py_get_name: "py_get t ''name'' YNull = Inr name \<Longrightarrow> name = tag_name t"
  by (cases t) (auto simp: py_get_def split: option.splits)

lemma merge_tags_first_named:
  assumes "merge_tags ts st = Inr st'"
    and "map_of (out st) ''tags'' = Some (YList (first_named prev))"
    and "seen_tags st = seen_of prev"
  shows "map_of (out st') ''tags'' = Some (YList (first_named (prev @ ts))) \<and>
         seen_tags st' = seen_of (prev @ ts)"
  using assms
proof (induction ts arbitrary: st prev)
  case Nil
  then show ?case by simp
next
  case (Cons t ts)
  from Cons.prems(1) obtain name where g: "py_get t ''name'' YNull = Inr name"
    by (auto split: sum.splits)
  then have name: "name = tag_name t" by (rule py_get_name)
  have app: "prev @ t # ts = (prev @ [t]) @ ts" by simp
  show ?case
  proof (cases "truthy name")
    case False
    with Cons.prems(1) g have m: "merge_tags ts st = Inr st'" by simp
    have 1: "first_named (prev @ [t]) = first_named prev"
      using False name by (simp add: first_named_snoc)
    have 2: "seen_of (prev @ [t]) = seen_of prev"
      using False name by (simp add: seen_of_snoc)
    from Cons.IH[OF m, of "prev @ [t]"] Cons.prems(2,3) 1 2
    show ?thesis unfolding app by simp
  next
    case True
    with Cons.prems(1) g obtain h where h: "py_hash name = Inr h"
      by (auto split: sum.splits)
    show ?thesis
    proof (cases "h \<in> seen_tags st")
      case True
      with Cons.prems(1) g h \<open>truthy name\<close> have m: "merge_tags ts st = Inr st'" by simp
      from True Cons.prems(3) in_seen_of[OF \<open>truthy name\<close> h, of prev]
      have "py_hash name \<in> set (map (\<lambda>t. py_hash (tag_name t)) prev)" by simp
      then have 1: "first_named (prev @ [t]) = first_named prev"
        using name by (simp add: first_named_snoc)
      have 2: "seen_of (prev @ [t]) = seen_of prev"
        using True Cons.prems(3) name h \<open>truthy name\<close>
        by (auto simp: seen_of_snoc)
      from Cons.IH[OF m, of "prev @ [t]"] Cons.prems(2,3) 1 2
      show ?thesis unfolding app by simp
    next
      case False
      with Cons.prems(1) g h \<open>truthy name\<close> obtain d
        where d: "tags_append (out st) t = Inr d"
          and m: "merge_tags ts \<lparr>out = d, seen_tags = insert h (seen_tags st)\<rparr> = Inr st'"
        by (auto split: sum.splits)
      from tags_append_Inr[OF d] Cons.prems(2)
      have dt: "map_of d ''tags'' = Some (YList (first_named prev @ [t]))"
        by (auto simp: map_of_setitem)
      from False Cons.prems(3) in_seen_of[OF \<open>truthy name\<close> h, of prev]
      have "py_hash name \<notin> set (map (\<lambda>t. py_hash (tag_name t)) prev)" by simp
      then have 1: "first_named (prev @ [t]) = first_named prev @ [t]"
        using name \<open>truthy name\<close> by (simp add: first_named_snoc)
      have 2: "seen_of (prev @ [t]) = insert h (seen_tags st)"
        using Cons.prems(3) name h \<open>truthy name\<close> by (simp add: seen_of_snoc)
      from Cons.IH[OF m, of "prev @ [t]"] dt 1 2
      show ?thesis unfolding app by simp
    qed
  qed
qed


lemma tags_step_doc_tags:
  assumes "tags_step spec st = Inr st'"
  shows "merge_tags (doc_tags spec) st = Inr st'"
proof -
  from assms obtain tg ts where g: "py_get spec ''tags'' (YList []) = Inr tg"
    and i: "py_iter (py_or tg (YList [])) = Inr ts"
    and m: "merge_tags ts st = Inr st'"
    by (auto simp: tags_step_def split: sum.splits)
  from g obtain kvs where spec: "spec = YDict kvs"
    by (cases spec) (auto simp: py_get_def)
  have "ts = doc_tags spec"
  proof (cases "truthy tg")
    case False
    with i have "ts = []" by (simp add: py_or_def)
    moreover from False g spec have "doc_tags spec = []"
      by (auto simp: py_get_def split: option.splits yaml.splits)
    ultimately show ?thesis by simp
  next
    case True
    with i have it: "py_iter tg = Inr ts" by (simp add: py_or_def)
    show ?thesis
    proof (cases tg)
      case (YList xs)
      with it g spec show ?thesis by (auto simp: py_get_def split: option.splits)
    next
      case (YDict d)
      with True obtain kv d' where "d = kv # d'" by (cases d) auto
      with it YDict have "ts = YStr (fst kv) # map (\<lambda>kv. YStr (fst kv)) d'" by auto
      with m show ?thesis by (simp add: py_get_def)
    next
      case (YStr x)
      with True obtain c x' where "x = c # x'" by (cases x) auto
      with it YStr have "ts = YStr [c] # map (\<lambda>c. YStr [c]) x'" by auto
      with m show ?thesis by (simp add: py_get_def)
    qed (use it in auto)
  qed
  with m show ?thesis by simp
qed

lemma merge_spec_tags:
  assumes "merge_spec spec st = Inr st'" and "shape_ok (out st)"
    and "map_of (out st) ''tags'' = Some (YList (first_named prev))"
    and "seen_tags st = seen_of prev"
  shows "map_of (out st') ''tags'' = Some (YList (first_named (prev @ doc_tags spec))) \<and>
         seen_tags st' = seen_of (prev @ doc_tags spec)"
proof -
  from assms(1) obtain d1 d2 where p: "paths_step spec (out st) = Inr d1"
    and c: "components_step spec d1 = Inr d2"
    and t: "tags_step spec (st\<lparr>out := d2\<rparr>) = Inr st'"
    by (auto simp: merge_spec_def split: sum.splits)
  from assms(2) have cs: "comp_shape (out st) = Some component_kinds"
    by (simp add: shape_ok_def)
  have f1: "same_frame ''paths'' (out st) d1" by (rule paths_step_frame[OF p])
  then have c1: "comp_shape d1 = Some component_kinds"
    using cs same_frame_comp[OF f1] by simp
  from components_step_frame[OF c c1] have f2: "same_frame ''components'' d1 d2" by simp
  from f1 f2 assms(3) have tg: "map_of (out (st\<lparr>out := d2\<rparr>)) ''tags'' =
      Some (YList (first_named prev))"
    by (simp add: same_frame_def)
  from merge_tags_first_named[OF tags_step_doc_tags[OF t] tg] assms(4)
  show ?thesis by simp
qed

lemma merge_loop_tags:
  assumes "merge_loop fs ps st = Inr st'" and "shape_ok (out st)"
    and "map_of (out st) ''tags'' = Some (YList (first_named prev))"
    and "seen_tags st = seen_of prev"
  shows "map_of (out st') ''tags'' = Some (YList (first_named (prev @ all_tags fs ps)))"
  using assms
proof (induction ps arbitrary: st prev)
  case Nil
  then show ?case by (simp add: all_tags_def)
next
  case (Cons p ps)
  from Cons.prems(1) obtain spec st1 where sp: "fs p = Some spec"
    and m: "merge_spec spec st = Inr st1"
    and l: "merge_loop fs ps st1 = Inr st'"
    by (auto simp: load_yaml_def split: sum.splits option.splits)
  from merge_spec_frame[OF m Cons.prems(2)] have ok: "shape_ok (out st1)" by simp
  from merge_spec_tags[OF m Cons.prems(2,3,4)]
  have 1: "map_of (out st1) ''tags'' = Some (YList (first_named (prev @ doc_tags spec)))"
    and 2: "seen_tags st1 = seen_of (prev @ doc_tags spec)"
    by auto
  have "all_tags fs (p # ps) = doc_tags spec @ all_tags fs ps"
    using sp by (simp add: all_tags_def)
  with Cons.IH[OF l ok 1 2] show ?case by simp
qed

text \<open>
  C2, as the code has it. When the merge raises nothing, the \<^verbatim>\<open>tags\<close> of the result are,
  in the order of the inputs, the tag entries that have a truthy name (present, and not
  null, empty, zero or false) that no earlier entry has, each entry as it stands in its
  input. Names are the same when they are equal as members of a Python set. No two
  entries of the result have the same name, and each has a truthy name: an entry without
  a name, or with a falsy one, is skipped like a repeated one.
\<close>

theorem merged_tags_first_named:
  assumes "merge_specs env fs ps = Inr r"
  shows "map_of r ''tags'' = Some (YList (first_named (all_tags fs ps))) \<and>
         distinct (map (\<lambda>t. py_hash (tag_name t)) (first_named (all_tags fs ps))) \<and>
         (\<forall>t\<in>set (first_named (all_tags fs ps)). truthy (tag_name t))"
proof -
  from assms obtain st where l: "merge_loop fs ps \<lparr>out = start_out env, seen_tags = {}\<rparr> = Inr st"
    and r: "r = out st"
    by (auto simp: merge_specs_def split: sum.splits)
  have t0: "map_of (out \<lparr>out = start_out env, seen_tags = {}\<rparr>) ''tags'' =
      Some (YList (first_named []))"
    by (simp add: start_out_def initial_out_def map_of_setitem first_named_Nil)
  have s0: "seen_tags \<lparr>out = start_out env, seen_tags = {}\<rparr> = seen_of []"
    by (simp add: seen_of_def)
  from merge_loop_tags[OF l _ t0 s0] shape_ok_start_out r
  have "map_of r ''tags'' = Some (YList (first_named (all_tags fs ps)))" by simp
  then show ?thesis
    using distinct_first_named first_named_truthy by blast
qed


theorem merged_tags_first_named_witness:
  "\<exists>r. merge_specs Map.empty
         [''a.yaml'' \<mapsto> YDict [(''tags'', YList [YDict [(''name'', YStr ''a'')],
                                                  YDict [(''name'', YStr ''b'')]])],
          ''b.yaml'' \<mapsto> YDict [(''tags'', YList [YDict [(''name'', YStr ''a''),
                                                         (''description'', YStr ''X'')]])]]
         [''a.yaml'', ''b.yaml''] = Inr r \<and>
       map_of r ''tags'' =
         Some (YList [YDict [(''name'', YStr ''a'')], YDict [(''name'', YStr ''b'')]])"
proof -
  define fs :: files where
    "fs = [''a.yaml'' \<mapsto> YDict [(''tags'', YList [YDict [(''name'', YStr ''a'')],
                                                  YDict [(''name'', YStr ''b'')]])],
          ''b.yaml'' \<mapsto> YDict [(''tags'', YList [YDict [(''name'', YStr ''a''),
                                                         (''description'', YStr ''X'')]])]]"
  have "merge_specs Map.empty fs [''a.yaml'', ''b.yaml''] =
      Inr [(''openapi'', YStr ''3.0.3''),
           (''info'', YDict [(''title'', YStr ''FocusNest - All Services''),
                             (''version'', YStr ''1.0.0'')]),
           (''paths'', YDict []),
           (''components'', YDict [(''schemas'', YDict []),
                                   (''securitySchemes'', YDict []),
                                   (''parameters'', YDict []), (''responses'', YDict [])]),
           (''tags'', YList [YDict [(''name'', YStr ''a'')], YDict [(''name'', YStr ''b'')]])]"
    unfolding fs_def by code_simp
  then obtain r where r: "merge_specs Map.empty fs [''a.yaml'', ''b.yaml''] = Inr r" by blast
  have f: "first_named (all_tags fs [''a.yaml'', ''b.yaml'']) =
      [YDict [(''name'', YStr ''a'')], YDict [(''name'', YStr ''b'')]]"
    unfolding fs_def by code_simp
  from merged_tags_first_named [OF r] f
  have "map_of r ''tags'' =
         Some (YList [YDict [(''name'', YStr ''a'')], YDict [(''name'', YStr ''b'')]])"
    by simp
  with r show ?thesis unfolding fs_def by blast
qed

text \<open>
  C2, as the claim has it (the first entry for each tag name), fails for the name that is
  the empty string: \<^verbatim>\<open>if name and ...\<close> skips the entry, which is the first and only one
  of its name.
\<close>

theorem merged_tags_counterexample:
  "(case merge_specs Map.empty
         [''a.yaml'' \<mapsto> YDict [(''tags'', YList [YDict [(''name'', YStr [])],
                                                  YDict [(''name'', YStr ''a'')]])]]
         [''a.yaml''] of
      Inr r \<Rightarrow> map_of r ''tags'' = Some (YList [YDict [(''name'', YStr ''a'')]])
    | Inl e \<Rightarrow> False) \<and>
   first_of_each_name
     (all_tags [''a.yaml'' \<mapsto> YDict [(''tags'', YList [YDict [(''name'', YStr [])],
                                                       YDict [(''name'', YStr ''a'')]])]]
        [''a.yaml'']) =
     [YDict [(''name'', YStr [])], YDict [(''name'', YStr ''a'')]]"
  by code_simp

section \<open>The last input wins\<close>













lemma get_path_top:
  "map_of d' k = map_of d k \<Longrightarrow> get_path (YDict d') (k # rest) = get_path (YDict d) (k # rest)"
  by simp






section \<open>Merging an input twice\<close>
























end
